theory Spec2Isabelle
  imports Complex_Main
begin

section \<open>JavaScript values\<close>

text \<open>
  The handler of \<^verbatim>\<open>list-orders.ts\<close> receives an untyped request (\<^verbatim>\<open>req\<close>, \<^verbatim>\<open>res\<close>
  have no annotation), so every value it reads is a JavaScript value. A number is a
  double: it is kept as one of the three non-finite values or a finite value, written as
  the rational it denotes. The handler never computes with numbers, it only tests their
  truthiness and forwards them.
\<close>

datatype jsnum = NaN | PosInf | NegInf | Fin rat

datatype jsval =
    Undefined
  | Null
  | Bool bool
  | Num jsnum
  | Str string
  | Arr "jsval list"
  | Obj "(string \<times> jsval) list"

text \<open>An object the handler reads and writes by key: a finite map from property names.\<close>

type_synonym jsobj = "string \<rightharpoonup> jsval"

text \<open>Reading a property that the object does not have gives \<^verbatim>\<open>undefined\<close>.\<close>

definition get :: "jsobj \<Rightarrow> string \<Rightarrow> jsval" where
  "get obj k = (case obj k of None \<Rightarrow> Undefined | Some v \<Rightarrow> v)"

text \<open>
  JavaScript's conversion to a boolean, as \<^verbatim>\<open>if (v)\<close>, \<^verbatim>\<open>v ? a : b\<close> and lodash's
  \<^verbatim>\<open>pickBy\<close> apply it: \<^verbatim>\<open>undefined\<close>, \<^verbatim>\<open>null\<close>, \<^verbatim>\<open>false\<close>, \<^verbatim>\<open>0\<close>, \<^verbatim>\<open>NaN\<close> and
  the empty string are falsy; every other value, the empty array and the empty object
  included, is truthy.
\<close>

fun truthy :: "jsval \<Rightarrow> bool" where
  "truthy Undefined = False"
| "truthy Null = False"
| "truthy (Bool b) = b"
| "truthy (Num NaN) = False"
| "truthy (Num (Fin r)) = (r \<noteq> 0)"
| "truthy (Num PosInf) = True"
| "truthy (Num NegInf) = True"
| "truthy (Str s) = (s \<noteq> [])"
| "truthy (Arr xs) = True"
| "truthy (Obj ps) = True"

section \<open>Library functions the handler calls\<close>

text \<open>
  \<^verbatim>\<open>String.prototype.split\<close> with a one-character separator: the pieces between the
  separators, in order; the empty string gives one empty piece.
\<close>

fun js_split :: "string \<Rightarrow> char \<Rightarrow> string list" where
  "js_split [] sep = [[]]"
| "js_split (c # cs) sep =
     (if c = sep then [] # js_split cs sep
      else (case js_split cs sep of
              [] \<Rightarrow> [[c]]
            | w # ws \<Rightarrow> (c # w) # ws))"

text \<open>\<^verbatim>\<open>Array.prototype.includes\<close> on an array of strings.\<close>

definition js_includes :: "string list \<Rightarrow> string \<Rightarrow> bool" where
  "js_includes xs f = (f \<in> set xs)"

text \<open>lodash \<^verbatim>\<open>identity\<close>, \<^verbatim>\<open>omit\<close> and \<^verbatim>\<open>pickBy\<close> (which keeps a property when the
  predicate's result is truthy).\<close>

definition identity :: "jsval \<Rightarrow> jsval" where
  "identity v = v"

definition omit :: "jsobj \<Rightarrow> string list \<Rightarrow> jsobj" where
  "omit obj ks = (\<lambda>k. if k \<in> set ks then None else obj k)"

definition pickBy :: "jsobj \<Rightarrow> (jsval \<Rightarrow> jsval) \<Rightarrow> jsobj" where
  "pickBy obj f =
     (\<lambda>k. case obj k of
             None \<Rightarrow> None
           | Some v \<Rightarrow> if truthy (f v) then Some v else None)"

section \<open>The handler\<close>

datatype error =
    ValidationError "string list"
  | TypeError string
  | DownstreamError string

record list_config =
  lc_select :: "string list"
  lc_relations :: "string list"
  lc_skip :: jsval
  lc_take :: jsval
  lc_order :: "(string \<times> string) list"

record 'o response =
  res_orders :: "'o list"
  res_count :: nat
  res_offset :: jsval
  res_limit :: jsval

text \<open>
  What the handler imports and resolves: the \<^verbatim>\<open>validator\<close> helper applied to the class
  \<^verbatim>\<open>StoreGetCustomersCustomerOrdersParams\<close>, the two allow-lists of \<^verbatim>\<open>../orders\<close>, and
  the \<^verbatim>\<open>listAndCount\<close> method of the order service resolved from the request scope.
  None of them is defined in \<^verbatim>\<open>list-orders.ts\<close>; the handler is a function of them.
  A rejected promise is the \<open>Inl\<close> of a sum.
\<close>

record 'o env =
  validator :: "(string \<times> jsval) list \<Rightarrow> error + jsobj"
  allowedStoreOrdersFields :: "string list"
  allowedStoreOrdersRelations :: "string list"
  listAndCount :: "jsobj \<Rightarrow> list_config \<Rightarrow> error + ('o list \<times> nat)"

text \<open>
  The request: \<^verbatim>\<open>req.user.customer_id\<close> and \<^verbatim>\<open>req.query\<close>. The route is
  authenticated, so \<^verbatim>\<open>req.user\<close> is an object; the value of its \<^verbatim>\<open>customer_id\<close> is
  whatever the session holds (the annotation \<^verbatim>\<open>string\<close> is not checked when the handler
  runs). The query is the parsed query string, a list of properties; the first binding
  of a name is its value.
\<close>

record req =
  user_customer_id :: jsval
  query :: "(string \<times> jsval) list"

text \<open>
  What a run of the handler does: the calls of \<^verbatim>\<open>orderService.listAndCount\<close> it made,
  with their arguments, and either the object given to \<^verbatim>\<open>res.json\<close> or the error that
  rejected the handler's promise.
\<close>

record 'o run =
  calls :: "(jsobj \<times> list_config) list"
  outcome :: "error + 'o response"

text \<open>
  Lines 83-89 and 91-97: the two blocks that split \<^verbatim>\<open>validated.fields\<close> and
  \<^verbatim>\<open>validated.expand\<close> and keep the allowed pieces differ only in the property and the
  allow-list. A falsy value skips the block and leaves the empty array. A truthy value
  that is not a string has no \<^verbatim>\<open>split\<close> method, and the call throws a TypeError.
\<close>

definition splitAllowed :: "jsval \<Rightarrow> string list \<Rightarrow> error + string list" where
  "splitAllowed v allowed =
     (if truthy v then
        (case v of
           Str s \<Rightarrow> Inr (filter (\<lambda>f. js_includes allowed f) (js_split s CHR '',''))
         | _ \<Rightarrow> Inl (TypeError ''split is not a function''))
      else Inr [])"

text \<open>The default export of \<^verbatim>\<open>list-orders.ts\<close>, lines 71-120.\<close>

definition handler :: "'o env \<Rightarrow> req \<Rightarrow> 'o run" where
  "handler env rq =
     (let id = user_customer_id rq in
      case validator env (query rq) of
        Inl e \<Rightarrow> \<lparr>calls = [], outcome = Inl e\<rparr>
      | Inr validated0 \<Rightarrow>
          let validated = validated0(''customer_id'' \<mapsto> id) in
          (case splitAllowed (get validated ''fields'') (allowedStoreOrdersFields env) of
             Inl e \<Rightarrow> \<lparr>calls = [], outcome = Inl e\<rparr>
           | Inr includeFields \<Rightarrow>
          (case splitAllowed (get validated ''expand'') (allowedStoreOrdersRelations env) of
             Inl e \<Rightarrow> \<lparr>calls = [], outcome = Inl e\<rparr>
           | Inr expandFields \<Rightarrow>
               let listConfig =
                     \<lparr>lc_select = (if length includeFields \<noteq> 0 then includeFields
                                   else allowedStoreOrdersFields env),
                      lc_relations = (if length expandFields \<noteq> 0 then expandFields
                                      else allowedStoreOrdersRelations env),
                      lc_skip = get validated ''offset'',
                      lc_take = get validated ''limit'',
                      lc_order = [(''created_at'', ''DESC'')]\<rparr>;
                   filterableFields =
                     omit validated [''limit'', ''offset'', ''expand'', ''fields''];
                   filt = pickBy filterableFields identity
               in (case listAndCount env filt listConfig of
                     Inl e \<Rightarrow> \<lparr>calls = [(filt, listConfig)], outcome = Inl e\<rparr>
                   | Inr (orders, count) \<Rightarrow>
                       \<lparr>calls = [(filt, listConfig)],
                        outcome = Inr \<lparr>res_orders = orders, res_count = count,
                                       res_offset = get validated ''offset'',
                                       res_limit = get validated ''limit''\<rparr>\<rparr>))))"

section \<open>The declared parameters\<close>

text \<open>
  Lines 122-201: the two parameter classes, property by property, each with its
  decorators in the order written and its initialiser when it has one. \<^verbatim>\<open>IsEnum\<close> is
  always written with \<^verbatim>\<open>{ each: true }\<close>; \<^verbatim>\<open>Type\<close> names \<^verbatim>\<open>Number\<close> or
  \<^verbatim>\<open>DateComparisonOperator\<close>.
\<close>

datatype enum_ref = OrderStatus | FulfillmentStatus | PaymentStatus

datatype type_fn = NumberT | DateComparisonOperatorT

datatype decorator =
    IsOptional
  | IsNumber
  | IsString
  | IsEnumEach enum_ref
  | ValidateNested
  | TypeOf type_fn

type_synonym prop_decl = "string \<times> decorator list \<times> jsval option"

definition StoreGetCustomersCustomerOrdersPaginationParams :: "prop_decl list" where
  "StoreGetCustomersCustomerOrdersPaginationParams =
     [(''limit'', [IsOptional, IsNumber, TypeOf NumberT], Some (Num (Fin 10))),
      (''offset'', [IsOptional, IsNumber, TypeOf NumberT], Some (Num (Fin 0))),
      (''fields'', [IsOptional, IsString], None),
      (''expand'', [IsOptional, IsString], None)]"

definition StoreGetCustomersCustomerOrdersParams :: "prop_decl list" where
  "StoreGetCustomersCustomerOrdersParams =
     StoreGetCustomersCustomerOrdersPaginationParams @
     [(''id'', [IsString, IsOptional], None),
      (''q'', [IsString, IsOptional], None),
      (''status'', [IsOptional, IsEnumEach OrderStatus], None),
      (''fulfillment_status'', [IsOptional, IsEnumEach FulfillmentStatus], None),
      (''payment_status'', [IsOptional, IsEnumEach PaymentStatus], None),
      (''display_id'', [IsString, IsOptional], None),
      (''cart_id'', [IsString, IsOptional], None),
      (''email'', [IsString, IsOptional], None),
      (''region_id'', [IsString, IsOptional], None),
      (''currency_code'', [IsString, IsOptional], None),
      (''tax_rate'', [IsString, IsOptional], None),
      (''created_at'', [IsOptional, ValidateNested, TypeOf DateComparisonOperatorT], None),
      (''updated_at'', [IsOptional, ValidateNested, TypeOf DateComparisonOperatorT], None),
      (''canceled_at'', [ValidateNested, IsOptional, TypeOf DateComparisonOperatorT], None)]"

section \<open>The validator\<close>

text \<open>
  Modelled from the spec: the \<^verbatim>\<open>validator\<close> helper (\<^verbatim>\<open>utils/validator\<close>) and the
  decorator library that reads the classes above are not among the sources. The spec
  (4.1 step 2, 7 and 9) has an explicit schema-validation step that walks the declared
  properties, coerces numeric ones, checks enum membership (a single value or every
  element of a list), validates nested date-comparison objects, and fails with a
  ValidationError that lists the offending fields; a property that is not supplied keeps
  its default.

  What the spec leaves open is a parameter here: JavaScript's \<^verbatim>\<open>Number\<close> conversion,
  the values of the three enumerations (\<^verbatim>\<open>models/order\<close>), the conversion and the
  validation of a \<^verbatim>\<open>DateComparisonOperator\<close> (\<^verbatim>\<open>types/common\<close>), and what happens to
  a query key that no property declares: the request is refused, the key is removed, or
  the key is kept as it came.
\<close>

datatype unknown_keys = Forbid | Strip | Keep

record vconf =
  unknownKeys :: unknown_keys
  toNumber :: "jsval \<Rightarrow> jsnum"
  enumValues :: "enum_ref \<Rightarrow> string list"
  toDateComparisonOperator :: "jsval \<Rightarrow> jsval"
  validDateComparisonOperator :: "jsval \<Rightarrow> bool"

definition nullish :: "jsval \<Rightarrow> bool" where
  "nullish v = (v = Undefined \<or> v = Null)"

text \<open>Modelled from the spec: the coercion step. The conversion a \<^verbatim>\<open>Type\<close> decorator
  asks for; \<^verbatim>\<open>undefined\<close> and \<^verbatim>\<open>null\<close> are left as they are.\<close>

definition transform :: "vconf \<Rightarrow> decorator list \<Rightarrow> jsval \<Rightarrow> jsval" where
  "transform vc decs v =
     (if nullish v then v
      else if TypeOf NumberT \<in> set decs then Num (toNumber vc v)
      else if TypeOf DateComparisonOperatorT \<in> set decs then toDateComparisonOperator vc v
      else v)"

definition isEnum :: "string list \<Rightarrow> jsval \<Rightarrow> bool" where
  "isEnum vals v = (case v of Str s \<Rightarrow> s \<in> set vals | _ \<Rightarrow> False)"

text \<open>Modelled from the spec: the type, enum-membership and nested-shape checks, one
  decorator's check of a value. An enum check accepts one value of the enumeration or a
  list of them. A number is a finite number: no decorator of the classes asks for an
  integer, a minimum or a maximum.\<close>

fun check :: "vconf \<Rightarrow> decorator \<Rightarrow> jsval \<Rightarrow> bool" where
  "check vc IsOptional v = True"
| "check vc IsNumber v = (case v of Num (Fin r) \<Rightarrow> True | _ \<Rightarrow> False)"
| "check vc IsString v = (case v of Str s \<Rightarrow> True | _ \<Rightarrow> False)"
| "check vc (IsEnumEach e) v =
     (case v of
        Arr xs \<Rightarrow> list_all (isEnum (enumValues vc e)) xs
      | _ \<Rightarrow> isEnum (enumValues vc e) v)"
| "check vc ValidateNested v = validDateComparisonOperator vc v"
| "check vc (TypeOf t) v = True"

text \<open>Modelled from the spec: a property is offending when one of its checks fails;
  \<^verbatim>\<open>IsOptional\<close> skips the checks of a property that is \<^verbatim>\<open>undefined\<close> or \<^verbatim>\<open>null\<close>
  (absent fields must not constrain the query).\<close>

definition offending :: "vconf \<Rightarrow> decorator list \<Rightarrow> jsval \<Rightarrow> bool" where
  "offending vc decs v =
     (if IsOptional \<in> set decs \<and> nullish v then False
      else \<not> list_all (\<lambda>d. check vc d v) decs)"

definition declared :: "prop_decl list \<Rightarrow> string list" where
  "declared cls = map fst cls"

definition decorators :: "prop_decl list \<Rightarrow> string \<Rightarrow> decorator list" where
  "decorators cls k = (case map_of cls k of None \<Rightarrow> [] | Some (decs, ini) \<Rightarrow> decs)"

definition initial :: "prop_decl list \<Rightarrow> jsobj" where
  "initial cls k = (case map_of cls k of None \<Rightarrow> None | Some (decs, ini) \<Rightarrow> ini)"

text \<open>Modelled from the spec: the instance of the class built from the query. A
  supplied property is converted and assigned, a property that is not supplied keeps its
  initial value (the defaults of \<^verbatim>\<open>limit\<close> and \<^verbatim>\<open>offset\<close>).\<close>

definition plainToClass :: "vconf \<Rightarrow> prop_decl list \<Rightarrow> (string \<times> jsval) list \<Rightarrow> jsobj" where
  "plainToClass vc cls q k =
     (case map_of q k of
        Some v \<Rightarrow> Some (transform vc (decorators cls k) v)
      | None \<Rightarrow> initial cls k)"

text \<open>Modelled from the spec: the list of offending fields, the declared properties
  whose value fails a check, followed by the undeclared keys of the query when those are
  refused.\<close>

definition validate :: "vconf \<Rightarrow> prop_decl list \<Rightarrow> (string \<times> jsval) list \<Rightarrow> jsobj \<Rightarrow> string list" where
  "validate vc cls q inst =
     filter (\<lambda>k. offending vc (decorators cls k) (get inst k)) (declared cls) @
     (if unknownKeys vc = Forbid
      then filter (\<lambda>k. k \<notin> set (declared cls)) (map fst q) else [])"

text \<open>Modelled from the spec: the \<^verbatim>\<open>validator\<close> helper itself. It fails with a
  ValidationError listing the offending fields when there is one, and returns the
  instance otherwise.\<close>

definition validator_model ::
  "vconf \<Rightarrow> prop_decl list \<Rightarrow> (string \<times> jsval) list \<Rightarrow> error + jsobj" where
  "validator_model vc cls q =
     (let inst = plainToClass vc cls q;
          errors = validate vc cls q inst
      in if errors \<noteq> [] then Inl (ValidationError errors)
         else Inr (if unknownKeys vc = Strip
                   then (\<lambda>k. if k \<in> set (declared cls) then inst k else None)
                   else inst))"

section \<open>The spec's reading of the projection parameters\<close>

text \<open>
  The spec's words for \<^verbatim>\<open>fields\<close> and \<^verbatim>\<open>expand\<close> (4.1 step 4): parse the parameter as
  a comma-separated list, keep the entries of the allow-list, and fall back to the whole
  allow-list when nothing is left. They are stated here without the handler's functions
  and compared below with what the handler puts into \<^verbatim>\<open>listConfig\<close>.

  A string is the comma-separated list \<open>ps\<close> when \<open>ps\<close> has at least one entry, no entry
  contains the separator, and writing the entries one after the other with the separator
  between them gives the string back.
\<close>

fun join_with :: "char \<Rightarrow> string list \<Rightarrow> string" where
  "join_with sep [] = []"
| "join_with sep [p] = p"
| "join_with sep (p # q # ps) = p @ sep # join_with sep (q # ps)"

definition is_split :: "char \<Rightarrow> string \<Rightarrow> string list \<Rightarrow> bool" where
  "is_split sep s ps =
     (ps \<noteq> [] \<and> join_with sep ps = s \<and> list_all (\<lambda>p. sep \<notin> set p) ps)"

text \<open>The entries of the allow-list among the requested ones, as requested and in the
  order requested; the whole allow-list when there is none.\<close>

definition spec_projection :: "string list \<Rightarrow> string list \<Rightarrow> string list" where
  "spec_projection allowed entries =
     (let kept = filter (\<lambda>e. e \<in> set allowed) entries
      in if kept = [] then allowed else kept)"

section \<open>A concrete configuration\<close>

text \<open>
  Concrete collaborators on which the handler is run below. \<open>sample_Number\<close> is
  JavaScript's \<^verbatim>\<open>Number\<close> on numbers and on the four strings it lists (the only ones the
  runs below convert) and \<^verbatim>\<open>NaN\<close> elsewhere; the enumerations and the allow-lists are
  short lists; a date comparison is valid when it is an object; the order service answers
  every call with three orders.
\<close>

definition sample_Number :: "jsval \<Rightarrow> jsnum" where
  "sample_Number v =
     (case v of
        Num n \<Rightarrow> n
      | Str s \<Rightarrow>
          (if s = ''5'' then Fin 5
           else if s = ''0'' then Fin 0
           else if s = ''2.5'' then Fin (5 / 2)
           else if s = ''-3'' then Fin (- 3)
           else NaN)
      | _ \<Rightarrow> NaN)"

fun sample_enums :: "enum_ref \<Rightarrow> string list" where
  "sample_enums OrderStatus = [''pending'', ''completed'']"
| "sample_enums FulfillmentStatus = [''not_fulfilled'', ''shipped'']"
| "sample_enums PaymentStatus = [''not_paid'', ''captured'']"

definition sample_vconf :: "unknown_keys \<Rightarrow> vconf" where
  "sample_vconf p =
     \<lparr>unknownKeys = p,
      toNumber = sample_Number,
      enumValues = sample_enums,
      toDateComparisonOperator = (\<lambda>v. v),
      validDateComparisonOperator = (\<lambda>v. case v of Obj ps \<Rightarrow> True | _ \<Rightarrow> False)\<rparr>"

definition sample_env :: "unknown_keys \<Rightarrow> nat env" where
  "sample_env p =
     \<lparr>validator = validator_model (sample_vconf p) StoreGetCustomersCustomerOrdersParams,
      allowedStoreOrdersFields = [''id'', ''email'', ''status''],
      allowedStoreOrdersRelations = [''items'', ''region''],
      listAndCount = (\<lambda>f c. Inr ([1, 2, 3], 3))\<rparr>"

section \<open>Observing a run\<close>

text \<open>For each call of \<^verbatim>\<open>listAndCount\<close> a run made: what its filter binds to a key, and
  its list configuration.\<close>

definition filter_values :: "'o run \<Rightarrow> string \<Rightarrow> jsval option list" where
  "filter_values r k = map (\<lambda>call. fst call k) (calls r)"

definition configs :: "'o run \<Rightarrow> list_config list" where
  "configs r = map snd (calls r)"

section \<open>Facts about the library functions\<close>

lemma js_split_nonempty: "js_split s sep \<noteq> []"
  by (induction s) (auto split: list.splits)

lemma js_includes_fun: "js_includes xs = (\<lambda>f. f \<in> set xs)"
  by (rule ext) (simp add: js_includes_def)

lemma pickBy_identity_Some:
  "pickBy obj identity k = Some v \<longleftrightarrow> obj k = Some v \<and> truthy v"
  by (auto simp: pickBy_def identity_def split: option.splits)

lemma pickBy_identity_None:
  "pickBy obj identity k = None \<longleftrightarrow> \<not> truthy (get obj k)"
  by (auto simp: pickBy_def identity_def get_def split: option.splits)

lemma omit_in: "k \<in> set ks \<Longrightarrow> omit obj ks k = None"
  by (simp add: omit_def)

lemma omit_out: "k \<notin> set ks \<Longrightarrow> omit obj ks k = obj k"
  by (simp add: omit_def)

lemma map_of_absent: "k \<notin> set (map fst q) \<Longrightarrow> map_of q k = None"
  by (simp add: map_of_eq_None_iff)

text \<open>\<open>js_split\<close> splits at the separator and nowhere else: its result is a list of
  entries in the sense of \<open>is_split\<close>, and a string has only one such list.\<close>

lemma join_with_Cons_Cons: "join_with sep ((c # w) # ws) = c # join_with sep (w # ws)"
  by (cases ws) simp_all

lemma join_with_Nil_Cons: "ws \<noteq> [] \<Longrightarrow> join_with sep ([] # ws) = sep # join_with sep ws"
  by (cases ws) simp_all

lemma join_with_Cons:
  "join_with sep (p # ps) = p @ (if ps = [] then [] else sep # join_with sep ps)"
  by (cases ps) simp_all

lemma js_split_join: "join_with sep (js_split s sep) = s"
proof (induction s)
  case Nil
  show ?case by simp
next
  case (Cons c cs)
  obtain w ws where w: "js_split cs sep = w # ws"
    using js_split_nonempty [of cs sep] by (cases "js_split cs sep") auto
  show ?case
  proof (cases "c = sep")
    case True
    then show ?thesis using Cons w by (simp add: join_with_Nil_Cons)
  next
    case False
    then show ?thesis using Cons w by (simp add: join_with_Cons_Cons)
  qed
qed

lemma js_split_no_sep: "list_all (\<lambda>p. sep \<notin> set p) (js_split s sep)"
proof (induction s)
  case Nil
  show ?case by simp
next
  case (Cons c cs)
  then show ?case by (auto split: list.splits)
qed

lemma js_split_is_split: "is_split sep s (js_split s sep)"
  by (simp add: is_split_def js_split_nonempty js_split_join js_split_no_sep)

lemma piece_unique:
  assumes "sep \<notin> set p" "sep \<notin> set q" "p @ r1 = q @ r2"
    and "r1 = [] \<or> hd r1 = sep" "r2 = [] \<or> hd r2 = sep"
  shows "p = q \<and> r1 = r2"
  using assms
proof (induction p arbitrary: q)
  case Nil
  then show ?case by (cases q) auto
next
  case (Cons a p)
  then show ?case by (cases q) auto
qed

lemma is_split_unique:
  assumes "is_split sep s ps" and "is_split sep s qs"
  shows "ps = qs"
proof -
  have "ps \<noteq> [] \<Longrightarrow> qs \<noteq> [] \<Longrightarrow> join_with sep ps = join_with sep qs \<Longrightarrow>
        list_all (\<lambda>p. sep \<notin> set p) ps \<Longrightarrow> list_all (\<lambda>p. sep \<notin> set p) qs \<Longrightarrow> ps = qs"
  proof (induction ps arbitrary: qs)
    case Nil
    then show ?case by simp
  next
    case (Cons p ps')
    from Cons.prems(2) obtain q qs' where qs: "qs = q # qs'" by (cases qs) auto
    let ?r1 = "if ps' = [] then [] else sep # join_with sep ps'"
    let ?r2 = "if qs' = [] then [] else sep # join_with sep qs'"
    have eq: "p @ ?r1 = q @ ?r2"
      using Cons.prems(3) unfolding qs join_with_Cons .
    have "p = q \<and> ?r1 = ?r2"
      using _ _ eq
    proof (rule piece_unique)
      show "sep \<notin> set p" using Cons.prems(4) by simp
      show "sep \<notin> set q" using Cons.prems(5) qs by simp
      show "?r1 = [] \<or> hd ?r1 = sep" by simp
      show "?r2 = [] \<or> hd ?r2 = sep" by simp
    qed
    then have pq: "p = q" and r: "?r1 = ?r2" by simp_all
    show ?case
    proof (cases "ps' = []")
      case True
      with r have "qs' = []" by (auto split: if_splits)
      with True pq qs show ?thesis by simp
    next
      case False
      with r have ne: "qs' \<noteq> []" and j: "join_with sep ps' = join_with sep qs'"
        by (auto split: if_splits)
      have "ps' = qs'"
        using False ne j Cons.prems(4,5) qs by (intro Cons.IH) simp_all
      with pq qs show ?thesis by simp
    qed
  qed
  with assms show ?thesis by (simp add: is_split_def)
qed

section \<open>The paths through the handler\<close>

text \<open>Every call of \<^verbatim>\<open>listAndCount\<close> comes from a request that passed validation and
  whose \<^verbatim>\<open>fields\<close> and \<^verbatim>\<open>expand\<close> could be split; its two arguments are these.\<close>

lemma handler_call_cases:
  assumes "(f, c) \<in> set (calls (handler env rq))"
  obtains validated0 includeFields expandFields where
    "validator env (query rq) = Inr validated0"
    "splitAllowed (get validated0 ''fields'') (allowedStoreOrdersFields env) = Inr includeFields"
    "splitAllowed (get validated0 ''expand'') (allowedStoreOrdersRelations env) = Inr expandFields"
    "f = pickBy (omit (validated0(''customer_id'' \<mapsto> user_customer_id rq))
                  [''limit'', ''offset'', ''expand'', ''fields'']) identity"
    "c = \<lparr>lc_select = (if includeFields \<noteq> [] then includeFields
                         else allowedStoreOrdersFields env),
          lc_relations = (if expandFields \<noteq> [] then expandFields
                            else allowedStoreOrdersRelations env),
          lc_skip = get validated0 ''offset'',
          lc_take = get validated0 ''limit'',
          lc_order = [(''created_at'', ''DESC'')]\<rparr>"
  using assms
  by (auto simp: handler_def Let_def get_def split: sum.splits prod.splits)

lemma handler_invalid:
  "validator env (query rq) = Inl e \<Longrightarrow> handler env rq = \<lparr>calls = [], outcome = Inl e\<rparr>"
  by (simp add: handler_def)

lemma handler_response:
  assumes "validator env (query rq) = Inr validated0"
    and "calls (handler env rq) = [(f, c)]"
    and "listAndCount env f c = Inr (os, n)"
  shows "outcome (handler env rq) =
           Inr \<lparr>res_orders = os, res_count = n,
                res_offset = get validated0 ''offset'',
                res_limit = get validated0 ''limit''\<rparr>"
  using assms
  by (auto simp: handler_def Let_def get_def split: sum.splits prod.splits)

text \<open>What the assignment of line 81 achieves: when the caller's id is truthy, every
  filter passed to \<^verbatim>\<open>listAndCount\<close> binds \<^verbatim>\<open>customer_id\<close> to it, whatever the validator
  returned under that key.\<close>

lemma customer_id_bound_when_truthy:
  assumes "truthy (user_customer_id rq)"
    and "(f, c) \<in> set (calls (handler env rq))"
  shows "f ''customer_id'' = Some (user_customer_id rq)"
  using assms(2)
proof (rule handler_call_cases)
  fix validated0 :: jsobj
  assume "f = pickBy (omit (validated0(''customer_id'' \<mapsto> user_customer_id rq))
                  [''limit'', ''offset'', ''expand'', ''fields'']) identity"
  with assms(1) show ?thesis
    by (simp add: pickBy_identity_Some omit_out)
qed

section \<open>The handler's projection against the spec's\<close>

text \<open>What the handler selects from one parameter value \<open>v\<close> and allow-list: the
  allow-list when \<open>v\<close> is falsy, and the spec's projection of the one comma-separated
  list that \<open>v\<close> is when it is a non-empty string.\<close>

lemma splitAllowed_spec:
  assumes "splitAllowed v allowed = Inr xs"
  shows "(\<not> truthy v \<longrightarrow> (if xs \<noteq> [] then xs else allowed) = allowed) \<and>
         (\<forall>s. v = Str s \<and> s \<noteq> [] \<longrightarrow>
            (\<exists>ps. is_split CHR '','' s ps \<and>
                  (\<forall>qs. is_split CHR '','' s qs \<longrightarrow> qs = ps) \<and>
                  (if xs \<noteq> [] then xs else allowed) = spec_projection allowed ps))"
proof -
  have a: "(if xs \<noteq> [] then xs else allowed) = allowed" if "\<not> truthy v"
    using that assms by (simp add: splitAllowed_def)
  have b: "\<exists>ps. is_split CHR '','' s ps \<and>
                  (\<forall>qs. is_split CHR '','' s qs \<longrightarrow> qs = ps) \<and>
                  (if xs \<noteq> [] then xs else allowed) = spec_projection allowed ps"
    if v: "v = Str s" and s: "s \<noteq> []" for s
  proof -
    let ?ps = "js_split s CHR '',''"
    have sp: "is_split CHR '','' s ?ps" by (rule js_split_is_split)
    have un: "\<forall>qs. is_split CHR '','' s qs \<longrightarrow> qs = ?ps"
      using sp by (blast intro: is_split_unique)
    from assms v s have "xs = filter (\<lambda>e. e \<in> set allowed) ?ps"
      by (simp add: splitAllowed_def js_includes_fun)
    then have "(if xs \<noteq> [] then xs else allowed) = spec_projection allowed ?ps"
      by (simp add: spec_projection_def Let_def)
    with sp un show ?thesis by blast
  qed
  from a b show ?thesis by blast
qed

text \<open>What the spec's projection gives in the three cases the spec names: allowed
  entries pass as written, other entries are dropped, and nothing left means the whole
  allow-list.\<close>

lemma spec_projection_verbatim:
  "entries \<noteq> [] \<Longrightarrow> set entries \<subseteq> set allowed \<Longrightarrow> spec_projection allowed entries = entries"
proof -
  assume ne: "entries \<noteq> []" and sub: "set entries \<subseteq> set allowed"
  from sub have "filter (\<lambda>e. e \<in> set allowed) entries = entries"
    by (auto simp: filter_id_conv)
  with ne show ?thesis by (simp add: spec_projection_def)
qed

lemma spec_projection_dropped:
  "filter (\<lambda>e. e \<in> set allowed) entries \<noteq> [] \<Longrightarrow>
   spec_projection allowed entries = filter (\<lambda>e. e \<in> set allowed) entries"
  by (simp add: spec_projection_def)

lemma spec_projection_fallback:
  "filter (\<lambda>e. e \<in> set allowed) entries = [] \<Longrightarrow> spec_projection allowed entries = allowed"
  by (simp add: spec_projection_def)

section \<open>Facts about the validator\<close>

lemmas class_defs =
  StoreGetCustomersCustomerOrdersParams_def StoreGetCustomersCustomerOrdersPaginationParams_def

lemma declared_Params:
  "declared StoreGetCustomersCustomerOrdersParams =
     [''limit'', ''offset'', ''fields'', ''expand'', ''id'', ''q'', ''status'',
      ''fulfillment_status'', ''payment_status'', ''display_id'', ''cart_id'', ''email'',
      ''region_id'', ''currency_code'', ''tax_rate'', ''created_at'', ''updated_at'',
      ''canceled_at'']"
  by (simp add: declared_def class_defs)

lemma decorators_enum:
  "decorators StoreGetCustomersCustomerOrdersParams ''status'' =
     [IsOptional, IsEnumEach OrderStatus]"
  "decorators StoreGetCustomersCustomerOrdersParams ''fulfillment_status'' =
     [IsOptional, IsEnumEach FulfillmentStatus]"
  "decorators StoreGetCustomersCustomerOrdersParams ''payment_status'' =
     [IsOptional, IsEnumEach PaymentStatus]"
  by (simp_all add: decorators_def class_defs)

lemma decorators_pagination:
  "decorators StoreGetCustomersCustomerOrdersParams ''limit'' =
     [IsOptional, IsNumber, TypeOf NumberT]"
  "decorators StoreGetCustomersCustomerOrdersParams ''offset'' =
     [IsOptional, IsNumber, TypeOf NumberT]"
  by (simp_all add: decorators_def class_defs)

lemma initial_pagination:
  "initial StoreGetCustomersCustomerOrdersParams ''limit'' = Some (Num (Fin 10))"
  "initial StoreGetCustomersCustomerOrdersParams ''offset'' = Some (Num (Fin 0))"
  by (simp_all add: initial_def class_defs)

lemma initial_Params_other:
  "k \<noteq> ''limit'' \<Longrightarrow> k \<noteq> ''offset'' \<Longrightarrow>
   initial StoreGetCustomersCustomerOrdersParams k = None"
  by (simp add: initial_def class_defs)

lemma optional_Params:
  "k \<in> set (declared StoreGetCustomersCustomerOrdersParams) \<Longrightarrow>
   IsOptional \<in> set (decorators StoreGetCustomersCustomerOrdersParams k)"
  unfolding declared_Params by (auto simp: decorators_def class_defs)

lemma validator_model_Inl:
  "k \<in> set (validate vc cls q (plainToClass vc cls q)) \<Longrightarrow>
   validator_model vc cls q = Inl (ValidationError (validate vc cls q (plainToClass vc cls q)))"
  by (auto simp: validator_model_def Let_def)

lemma validator_model_Inr:
  "validator_model vc cls q = Inr validated \<Longrightarrow> k \<in> set (declared cls) \<Longrightarrow>
   validated k = plainToClass vc cls q k"
  by (auto simp: validator_model_def Let_def split: if_splits)

lemma offending_in_validate:
  "k \<in> set (declared cls) \<Longrightarrow> offending vc (decorators cls k) (get inst k) \<Longrightarrow>
   k \<in> set (validate vc cls q inst)"
  by (simp add: validate_def)

lemma defaults_kept:
  assumes "validator_model vc StoreGetCustomersCustomerOrdersParams q = Inr validated"
  shows "(map_of q ''limit'' = None \<longrightarrow> get validated ''limit'' = Num (Fin 10)) \<and>
         (map_of q ''offset'' = None \<longrightarrow> get validated ''offset'' = Num (Fin 0))"
proof -
  have l: "validated ''limit'' = plainToClass vc StoreGetCustomersCustomerOrdersParams q ''limit''"
    using assms by (rule validator_model_Inr) (simp add: declared_Params)
  have o: "validated ''offset'' = plainToClass vc StoreGetCustomersCustomerOrdersParams q ''offset''"
    using assms by (rule validator_model_Inr) (simp add: declared_Params)
  show ?thesis
    by (simp add: get_def l o plainToClass_def initial_pagination)
qed

lemma number_not_offending:
  assumes "map_of q k = Some v" "\<not> nullish v" "toNumber vc v = Fin r"
    and "decorators cls k = [IsOptional, IsNumber, TypeOf NumberT]"
  shows "plainToClass vc cls q k = Some (Num (Fin r))"
    and "\<not> offending vc (decorators cls k) (get (plainToClass vc cls q) k)"
  using assms
  by (simp_all add: plainToClass_def transform_def offending_def get_def nullish_def)

lemma absent_not_offending:
  assumes "map_of q k = None" "initial cls k = None" "IsOptional \<in> set (decorators cls k)"
  shows "\<not> offending vc (decorators cls k) (get (plainToClass vc cls q) k)"
  using assms by (simp add: plainToClass_def offending_def get_def nullish_def)

lemma decorators_projection:
  "decorators StoreGetCustomersCustomerOrdersParams ''fields'' = [IsOptional, IsString]"
  "decorators StoreGetCustomersCustomerOrdersParams ''expand'' = [IsOptional, IsString]"
  by (simp_all add: decorators_def class_defs)

lemma validator_model_not_offending:
  assumes "validator_model vc cls q = Inr validated" and "k \<in> set (declared cls)"
  shows "\<not> offending vc (decorators cls k) (get validated k)"
proof -
  from assms(1) have "validate vc cls q (plainToClass vc cls q) = []"
    by (auto simp: validator_model_def Let_def split: if_splits)
  with assms(2) have "\<not> offending vc (decorators cls k) (get (plainToClass vc cls q) k)"
    by (auto simp: validate_def filter_empty_conv)
  moreover have "validated k = plainToClass vc cls q k"
    using assms by (rule validator_model_Inr)
  ultimately show ?thesis by (simp add: get_def)
qed

lemma string_property_valid:
  assumes "\<not> offending vc [IsOptional, IsString] v"
  shows "\<exists>xs. splitAllowed v allowed = Inr xs"
  using assms by (cases v) (auto simp: offending_def nullish_def splitAllowed_def)

lemma handler_calls_once:
  assumes "validator env (query rq) = Inr validated0"
    and "splitAllowed (get validated0 ''fields'') (allowedStoreOrdersFields env) = Inr i"
    and "splitAllowed (get validated0 ''expand'') (allowedStoreOrdersRelations env) = Inr e"
  shows "\<exists>f c. calls (handler env rq) = [(f, c)]"
  using assms
  by (auto simp: handler_def Let_def get_def split: sum.splits prod.splits)

text \<open>With the validator of the spec, a request that passes validation reaches the
  order service: \<^verbatim>\<open>fields\<close> and \<^verbatim>\<open>expand\<close> are strings or absent, so neither split throws,
  and exactly one call of \<^verbatim>\<open>listAndCount\<close> is made.\<close>

lemma valid_request_calls_once:
  assumes "validator env = validator_model vc StoreGetCustomersCustomerOrdersParams"
    and "validator env (query rq) = Inr validated"
  shows "\<exists>f c. calls (handler env rq) = [(f, c)]"
proof -
  let ?cls = StoreGetCustomersCustomerOrdersParams
  from assms have m: "validator_model vc ?cls (query rq) = Inr validated" by simp
  have "\<not> offending vc (decorators ?cls ''fields'') (get validated ''fields'')"
    using m by (rule validator_model_not_offending) (simp add: declared_Params)
  then obtain i where i:
    "splitAllowed (get validated ''fields'') (allowedStoreOrdersFields env) = Inr i"
    unfolding decorators_projection using string_property_valid by blast
  have "\<not> offending vc (decorators ?cls ''expand'') (get validated ''expand'')"
    using m by (rule validator_model_not_offending) (simp add: declared_Params)
  then obtain e where e:
    "splitAllowed (get validated ''expand'') (allowedStoreOrdersRelations env) = Inr e"
    unfolding decorators_projection using string_property_valid by blast
  from assms(2) i e show ?thesis by (rule handler_calls_once)
qed

text \<open>The definitions a run on the concrete configuration unfolds.\<close>

lemmas run_defs =
  handler_def sample_env_def sample_vconf_def sample_Number_def
  validator_model_def plainToClass_def validate_def offending_def decorators_def initial_def
  declared_def transform_def nullish_def isEnum_def class_defs
  splitAllowed_def js_includes_def get_def Let_def

section \<open>The claims\<close>

subsection \<open>C1: the filter's customer id\<close>

text \<open>
  Claim C1 fails on the code. The handler assigns the caller's id to
  \<^verbatim>\<open>validated["customer_id"]\<close> (line 81) so that the listing is the caller's own ("Retrieves
  a list of a Customer's Orders", lines 26-28), but the filter then goes through
  \<^verbatim>\<open>_.pickBy(filterableFields, identity)\<close> (line 115), which drops every falsy value, the
  assigned id included. With the id \<^verbatim>\<open>cus_me\<close> the one call made is scoped to \<^verbatim>\<open>cus_me\<close>;
  with the empty string as id the same request passes validation, the one call is made,
  and its filter binds nothing to \<^verbatim>\<open>customer_id\<close>.
\<close>

theorem customer_id_lost_for_empty_id:
  "filter_values (handler (sample_env Forbid) \<lparr>user_customer_id = Str ''cus_me'', query = []\<rparr>)
     ''customer_id'' = [Some (Str ''cus_me'')] \<and>
   filter_values (handler (sample_env Forbid) \<lparr>user_customer_id = Str [], query = []\<rparr>)
     ''customer_id'' = [None]"
  by (simp add: filter_values_def run_defs omit_def pickBy_def identity_def)

subsection \<open>C9: a falsy customer id\<close>

text \<open>
  Claim C9. When the customer id read from the session is falsy (the empty string,
  \<^verbatim>\<open>undefined\<close>, \<^verbatim>\<open>null\<close>, \<^verbatim>\<open>0\<close>), \<^verbatim>\<open>pickBy\<close> with \<^verbatim>\<open>identity\<close> removes the injected
  \<^verbatim>\<open>customer_id\<close>: no filter passed to \<^verbatim>\<open>listAndCount\<close> binds the key, so the query is
  not scoped to a customer.
\<close>

theorem falsy_customer_id_unscoped:
  assumes "\<not> truthy (user_customer_id rq)"
    and "(f, c) \<in> set (calls (handler env rq))"
  shows "f ''customer_id'' = None"
  using assms(2)
proof (rule handler_call_cases)
  fix validated0 :: jsobj
  assume "f = pickBy (omit (validated0(''customer_id'' \<mapsto> user_customer_id rq))
                  [''limit'', ''offset'', ''expand'', ''fields'']) identity"
  with assms(1) show ?thesis
    by (simp add: pickBy_identity_None omit_out get_def)
qed

text \<open>A run with the empty string as id and an \<^verbatim>\<open>email\<close> filter: the call is made with
  the email filter and without a customer.\<close>

theorem falsy_customer_id_unscoped_witness:
  "\<not> truthy (Str []) \<and>
   filter_values (handler (sample_env Forbid)
       \<lparr>user_customer_id = Str [], query = [(''email'', Str ''a@b.c'')]\<rparr>)
     ''customer_id'' = [None] \<and>
   filter_values (handler (sample_env Forbid)
       \<lparr>user_customer_id = Str [], query = [(''email'', Str ''a@b.c'')]\<rparr>)
     ''email'' = [Some (Str ''a@b.c'')]"
proof -
  let ?rq = "\<lparr>user_customer_id = Str [], query = [(''email'', Str ''a@b.c'')]\<rparr>"
  let ?r = "handler (sample_env Forbid) ?rq"
  obtain f c where run: "calls ?r = [(f, c)]" and email: "f ''email'' = Some (Str ''a@b.c'')"
    by (simp add: run_defs omit_def pickBy_def identity_def)
  then have mem: "(f, c) \<in> set (calls ?r)" by simp
  have t: "\<not> truthy (user_customer_id ?rq)" by simp
  have "f ''customer_id'' = None"
    using falsy_customer_id_unscoped [OF t mem] .
  with run email show ?thesis by (simp add: filter_values_def)
qed

subsection \<open>C2: fields and expand\<close>

text \<open>
  Claim C2. For every request that passes validation, the \<^verbatim>\<open>select\<close> of the list
  configuration passed to \<^verbatim>\<open>listAndCount\<close> is the whole allow-list of fields when the
  validated \<^verbatim>\<open>fields\<close> is absent or empty (falsy); and when it is a non-empty string, the
  string is split on commas (\<open>ps\<close> is its one list of comma-free entries that joined by
  commas give the string back), the entries of the allow-list are kept as written and in
  order, the others are dropped, and the whole allow-list is used when none is left
  (\<open>spec_projection\<close>). The same holds of \<^verbatim>\<open>relations\<close>, \<^verbatim>\<open>expand\<close> and the allow-list of
  relations.
\<close>

theorem projection_allow_listed:
  assumes "validator env (query rq) = Inr validated"
    and "(f, c) \<in> set (calls (handler env rq))"
  shows "(\<not> truthy (get validated ''fields'') \<longrightarrow> lc_select c = allowedStoreOrdersFields env) \<and>
         (\<forall>s. get validated ''fields'' = Str s \<and> s \<noteq> [] \<longrightarrow>
            (\<exists>ps. is_split CHR '','' s ps \<and>
                  (\<forall>qs. is_split CHR '','' s qs \<longrightarrow> qs = ps) \<and>
                  lc_select c = spec_projection (allowedStoreOrdersFields env) ps)) \<and>
         (\<not> truthy (get validated ''expand'') \<longrightarrow>
            lc_relations c = allowedStoreOrdersRelations env) \<and>
         (\<forall>s. get validated ''expand'' = Str s \<and> s \<noteq> [] \<longrightarrow>
            (\<exists>ps. is_split CHR '','' s ps \<and>
                  (\<forall>qs. is_split CHR '','' s qs \<longrightarrow> qs = ps) \<and>
                  lc_relations c = spec_projection (allowedStoreOrdersRelations env) ps))"
  using assms(2)
proof (rule handler_call_cases)
  fix validated0 :: jsobj and includeFields expandFields
  assume v: "validator env (query rq) = Inr validated0"
    and i: "splitAllowed (get validated0 ''fields'') (allowedStoreOrdersFields env)
              = Inr includeFields"
    and e: "splitAllowed (get validated0 ''expand'') (allowedStoreOrdersRelations env)
              = Inr expandFields"
    and c: "c = \<lparr>lc_select = (if includeFields \<noteq> [] then includeFields
                         else allowedStoreOrdersFields env),
          lc_relations = (if expandFields \<noteq> [] then expandFields
                            else allowedStoreOrdersRelations env),
          lc_skip = get validated0 ''offset'',
          lc_take = get validated0 ''limit'',
          lc_order = [(''created_at'', ''DESC'')]\<rparr>"
  from v assms(1) have eq: "validated0 = validated" by simp
  from c have s: "lc_select c =
      (if includeFields \<noteq> [] then includeFields else allowedStoreOrdersFields env)"
    by simp
  from c have r: "lc_relations c =
      (if expandFields \<noteq> [] then expandFields else allowedStoreOrdersRelations env)"
    by simp
  from splitAllowed_spec [OF i] splitAllowed_spec [OF e]
  show ?thesis unfolding s r eq by blast
qed

text \<open>A run with \<^verbatim>\<open>fields=status,secret,id\<close> and \<^verbatim>\<open>expand=bogus\<close>: \<^verbatim>\<open>status\<close> and \<^verbatim>\<open>id\<close>
  are selected in the order requested, \<^verbatim>\<open>secret\<close> is dropped, and the relations fall back
  to the whole allow-list.\<close>

theorem projection_allow_listed_witness:
  "map lc_select (configs (handler (sample_env Forbid)
       \<lparr>user_customer_id = Str ''cus_me'',
        query = [(''fields'', Str ''status,secret,id''), (''expand'', Str ''bogus'')]\<rparr>))
     = [[''status'', ''id'']] \<and>
   map lc_relations (configs (handler (sample_env Forbid)
       \<lparr>user_customer_id = Str ''cus_me'',
        query = [(''fields'', Str ''status,secret,id''), (''expand'', Str ''bogus'')]\<rparr>))
     = [[''items'', ''region'']]"
proof -
  let ?q = "[(''fields'', Str ''status,secret,id''), (''expand'', Str ''bogus'')]"
  let ?rq = "\<lparr>user_customer_id = Str ''cus_me'', query = ?q\<rparr>"
  let ?r = "handler (sample_env Forbid) ?rq"
  obtain validated where v: "validator (sample_env Forbid) (query ?rq) = Inr validated"
    and fe: "get validated ''fields'' = Str ''status,secret,id''"
      "get validated ''expand'' = Str ''bogus''"
    by (simp add: run_defs)
  obtain f c where run: "calls ?r = [(f, c)]"
    by (simp add: handler_def sample_env_def splitAllowed_def get_def Let_def
        validator_model_def plainToClass_def validate_def offending_def decorators_def
        initial_def declared_def transform_def nullish_def class_defs sample_vconf_def)
  then have mem: "(f, c) \<in> set (calls ?r)" by simp
  note t = projection_allow_listed [OF v mem]
  have f1: "is_split CHR '','' ''status,secret,id'' [''status'', ''secret'', ''id'']"
    by (simp add: is_split_def)
  have e1: "is_split CHR '','' ''bogus'' [''bogus'']"
    by (simp add: is_split_def)
  from t fe(1) obtain ps where ps: "\<forall>qs. is_split CHR '','' ''status,secret,id'' qs \<longrightarrow> qs = ps"
    and sel: "lc_select c = spec_projection (allowedStoreOrdersFields (sample_env Forbid)) ps"
    by auto
  from ps f1 have "ps = [''status'', ''secret'', ''id'']" by blast
  with sel have a: "lc_select c = [''status'', ''id'']"
    by (simp add: spec_projection_def sample_env_def)
  from t fe(2) obtain rs where rs: "\<forall>qs. is_split CHR '','' ''bogus'' qs \<longrightarrow> qs = rs"
    and rel: "lc_relations c = spec_projection (allowedStoreOrdersRelations (sample_env Forbid)) rs"
    by auto
  from rs e1 have "rs = [''bogus'']" by blast
  with rel have b: "lc_relations c = [''items'', ''region'']"
    by (simp add: spec_projection_def sample_env_def)
  from run a b show ?thesis by (simp add: configs_def)
qed

subsection \<open>C4: the control keys\<close>

text \<open>
  Claim C4. For every request that passes validation, the filter passed to
  \<^verbatim>\<open>listAndCount\<close> binds none of \<^verbatim>\<open>limit\<close>, \<^verbatim>\<open>offset\<close>, \<^verbatim>\<open>fields\<close>, \<^verbatim>\<open>expand\<close>, and it binds
  every other validated parameter whose value is truthy (a non-empty string, an array, an
  object) to that value. The key \<^verbatim>\<open>customer_id\<close> is the injected one and is left to C1.
\<close>

theorem control_keys_omitted:
  assumes "validator env (query rq) = Inr validated"
    and "(f, c) \<in> set (calls (handler env rq))"
  shows "(\<forall>k \<in> set [''limit'', ''offset'', ''fields'', ''expand'']. f k = None) \<and>
         (\<forall>k v. k \<notin> set [''limit'', ''offset'', ''fields'', ''expand''] \<and>
                k \<noteq> ''customer_id'' \<and> validated k = Some v \<and> truthy v \<longrightarrow> f k = Some v)"
  using assms(2)
proof (rule handler_call_cases)
  fix validated0 :: jsobj
  assume v: "validator env (query rq) = Inr validated0"
    and f: "f = pickBy (omit (validated0(''customer_id'' \<mapsto> user_customer_id rq))
                  [''limit'', ''offset'', ''expand'', ''fields'']) identity"
  from v assms(1) have eq: "validated0 = validated" by simp
  have a: "\<forall>k \<in> set [''limit'', ''offset'', ''fields'', ''expand'']. f k = None"
    unfolding f by (simp add: pickBy_def omit_def)
  have b: "\<forall>k v. k \<notin> set [''limit'', ''offset'', ''fields'', ''expand''] \<and>
                k \<noteq> ''customer_id'' \<and> validated k = Some v \<and> truthy v \<longrightarrow> f k = Some v"
    unfolding f eq by (auto simp: pickBy_def omit_def identity_def)
  from a b show ?thesis ..
qed

text \<open>A run with all four control keys and two filters supplied.\<close>

theorem control_keys_omitted_witness:
  "map (filter_values (handler (sample_env Forbid)
       \<lparr>user_customer_id = Str ''cus_me'',
        query = [(''limit'', Str ''5''), (''offset'', Str ''0''), (''fields'', Str ''id''),
                 (''expand'', Str ''items''), (''email'', Str ''a@b.c''),
                 (''status'', Arr [Str ''pending''])]\<rparr>))
     [''limit'', ''offset'', ''fields'', ''expand'', ''email'', ''status'']
   = [[None], [None], [None], [None], [Some (Str ''a@b.c'')], [Some (Arr [Str ''pending''])]]"
proof -
  let ?q = "[(''limit'', Str ''5''), (''offset'', Str ''0''), (''fields'', Str ''id''),
             (''expand'', Str ''items''), (''email'', Str ''a@b.c''),
             (''status'', Arr [Str ''pending''])]"
  let ?rq = "\<lparr>user_customer_id = Str ''cus_me'', query = ?q\<rparr>"
  let ?r = "handler (sample_env Forbid) ?rq"
  obtain validated where v: "validator (sample_env Forbid) (query ?rq) = Inr validated"
    and vals: "validated ''email'' = Some (Str ''a@b.c'')"
      "validated ''status'' = Some (Arr [Str ''pending''])"
    by (simp add: run_defs)
  obtain f c where run: "calls ?r = [(f, c)]"
    by (simp add: run_defs)
  then have mem: "(f, c) \<in> set (calls ?r)" by simp
  note t = control_keys_omitted [OF v mem]
  from t have "f ''limit'' = None" "f ''offset'' = None" "f ''fields'' = None"
    "f ''expand'' = None" by simp_all
  moreover from t vals have "f ''email'' = Some (Str ''a@b.c'')"
    "f ''status'' = Some (Arr [Str ''pending''])" by simp_all
  ultimately show ?thesis using run by (simp add: filter_values_def)
qed

subsection \<open>C5: empty filters\<close>

text \<open>
  Claim C5. For every request that passes validation, a key whose validated value is
  falsy (the empty string, \<^verbatim>\<open>null\<close>, \<^verbatim>\<open>undefined\<close>, which is also what reading an omitted
  parameter gives) is not bound by the filter passed to \<^verbatim>\<open>listAndCount\<close>. The validated
  object is read after the assignment of \<^verbatim>\<open>customer_id\<close>, as \<^verbatim>\<open>pickBy\<close> reads it. "Empty"
  is the empty string here: an empty array or object is truthy in JavaScript and is kept.
\<close>

theorem falsy_filters_excluded:
  assumes "validator env (query rq) = Inr validated"
    and "(f, c) \<in> set (calls (handler env rq))"
    and "\<not> truthy (get (validated(''customer_id'' \<mapsto> user_customer_id rq)) k)"
  shows "f k = None"
  using assms(2)
proof (rule handler_call_cases)
  fix validated0 :: jsobj
  assume v: "validator env (query rq) = Inr validated0"
    and f: "f = pickBy (omit (validated0(''customer_id'' \<mapsto> user_customer_id rq))
                  [''limit'', ''offset'', ''expand'', ''fields'']) identity"
  from v assms(1) have eq: "validated0 = validated" by simp
  show ?thesis
  proof (cases "k \<in> set [''limit'', ''offset'', ''expand'', ''fields'']")
    case True
    then show ?thesis unfolding f by (simp only: pickBy_def omit_in option.case)
  next
    case False
    with assms(3) show ?thesis
      unfolding f eq by (simp add: pickBy_identity_None get_def omit_out)
  qed
qed

text \<open>A run with \<^verbatim>\<open>email=\<close> (empty), \<^verbatim>\<open>q=shoes\<close> and no \<^verbatim>\<open>region_id\<close>: the filter binds
  neither \<^verbatim>\<open>email\<close> nor \<^verbatim>\<open>region_id\<close>.\<close>

theorem falsy_filters_excluded_witness:
  "\<not> truthy (Str []) \<and> \<not> truthy Undefined \<and>
   map (filter_values (handler (sample_env Forbid)
       \<lparr>user_customer_id = Str ''cus_me'',
        query = [(''email'', Str []), (''q'', Str ''shoes'')]\<rparr>))
     [''email'', ''region_id'']
   = [[None], [None]]"
proof -
  let ?q = "[(''email'', Str []), (''q'', Str ''shoes'')]"
  let ?rq = "\<lparr>user_customer_id = Str ''cus_me'', query = ?q\<rparr>"
  let ?r = "handler (sample_env Forbid) ?rq"
  obtain validated where v: "validator (sample_env Forbid) (query ?rq) = Inr validated"
    and vals: "validated ''email'' = Some (Str [])" "validated ''region_id'' = None"
    by (simp add: run_defs)
  obtain f c where run: "calls ?r = [(f, c)]"
    by (simp add: run_defs)
  then have mem: "(f, c) \<in> set (calls ?r)" by simp
  have e: "\<not> truthy (get (validated(''customer_id'' \<mapsto> user_customer_id ?rq)) ''email'')"
    by (simp add: get_def vals)
  have g: "\<not> truthy (get (validated(''customer_id'' \<mapsto> user_customer_id ?rq)) ''region_id'')"
    by (simp add: get_def vals)
  have "f ''email'' = None"
    using falsy_filters_excluded [OF v mem e] .
  moreover have "f ''region_id'' = None"
    using falsy_filters_excluded [OF v mem g] .
  ultimately show ?thesis using run by (simp add: filter_values_def)
qed

subsection \<open>C7: the list configuration\<close>

text \<open>
  Claim C7. For every request that passes validation, the list configuration passed to
  \<^verbatim>\<open>listAndCount\<close> has \<^verbatim>\<open>skip\<close> equal to the validated \<^verbatim>\<open>offset\<close>, \<^verbatim>\<open>take\<close> equal to the
  validated \<^verbatim>\<open>limit\<close>, and the order \<^verbatim>\<open>{ created_at: "DESC" }\<close>, whatever the query holds.
\<close>

theorem list_config_pagination_and_order:
  assumes "validator env (query rq) = Inr validated"
    and "(f, c) \<in> set (calls (handler env rq))"
  shows "lc_skip c = get validated ''offset'' \<and> lc_take c = get validated ''limit'' \<and>
         lc_order c = [(''created_at'', ''DESC'')]"
  using assms(2)
proof (rule handler_call_cases)
  fix validated0 :: jsobj and includeFields expandFields
  assume v: "validator env (query rq) = Inr validated0"
    and c: "c = \<lparr>lc_select = (if includeFields \<noteq> [] then includeFields
                         else allowedStoreOrdersFields env),
          lc_relations = (if expandFields \<noteq> [] then expandFields
                            else allowedStoreOrdersRelations env),
          lc_skip = get validated0 ''offset'',
          lc_take = get validated0 ''limit'',
          lc_order = [(''created_at'', ''DESC'')]\<rparr>"
  from v assms(1) have "validated0 = validated" by simp
  with c show ?thesis by simp
qed

text \<open>A run with \<^verbatim>\<open>limit=5\<close>, \<^verbatim>\<open>offset=0\<close> and an \<^verbatim>\<open>order\<close> parameter that the validator
  keeps: the order of the call is still creation time, descending.\<close>

theorem list_config_pagination_and_order_witness:
  "configs (handler (sample_env Keep)
       \<lparr>user_customer_id = Str ''cus_me'',
        query = [(''limit'', Str ''5''), (''offset'', Str ''0''),
                 (''order'', Str ''created_at ASC'')]\<rparr>)
   = [\<lparr>lc_select = [''id'', ''email'', ''status''], lc_relations = [''items'', ''region''],
       lc_skip = Num (Fin 0), lc_take = Num (Fin 5),
       lc_order = [(''created_at'', ''DESC'')]\<rparr>]"
proof -
  let ?q = "[(''limit'', Str ''5''), (''offset'', Str ''0''), (''order'', Str ''created_at ASC'')]"
  let ?rq = "\<lparr>user_customer_id = Str ''cus_me'', query = ?q\<rparr>"
  let ?r = "handler (sample_env Keep) ?rq"
  obtain validated where v: "validator (sample_env Keep) (query ?rq) = Inr validated"
    and vals: "get validated ''limit'' = Num (Fin 5)" "get validated ''offset'' = Num (Fin 0)"
    by (simp add: run_defs)
  obtain f c where run: "calls ?r = [(f, c)]"
    and rest: "lc_select c = [''id'', ''email'', ''status'']"
      "lc_relations c = [''items'', ''region'']"
    by (simp add: run_defs)
  then have mem: "(f, c) \<in> set (calls ?r)" by simp
  have "lc_skip c = Num (Fin 0) \<and> lc_take c = Num (Fin 5) \<and>
        lc_order c = [(''created_at'', ''DESC'')]"
    using list_config_pagination_and_order [OF v mem] by (simp add: vals)
  with rest have "c = \<lparr>lc_select = [''id'', ''email'', ''status''],
       lc_relations = [''items'', ''region''],
       lc_skip = Num (Fin 0), lc_take = Num (Fin 5),
       lc_order = [(''created_at'', ''DESC'')]\<rparr>"
    by (cases c) simp
  with run show ?thesis by (simp add: configs_def)
qed

subsection \<open>C6: values outside an enumeration\<close>

text \<open>
  Claim C6. With the validator of the spec, a request that supplies for \<^verbatim>\<open>status\<close>,
  \<^verbatim>\<open>fulfillment_status\<close> or \<^verbatim>\<open>payment_status\<close> a value outside the enumeration (a single value
  that is not one of its strings, or a list with such an element) fails with a
  ValidationError that names the property, and the handler stops there: it makes no call
  of \<^verbatim>\<open>listAndCount\<close>.
\<close>

theorem enum_violation_halts:
  assumes "validator env = validator_model vc StoreGetCustomersCustomerOrdersParams"
    and "(k, e) \<in> set [(''status'', OrderStatus), (''fulfillment_status'', FulfillmentStatus),
                       (''payment_status'', PaymentStatus)]"
    and "map_of (query rq) k = Some v"
    and "\<not> nullish v"
    and "\<not> check vc (IsEnumEach e) v"
  shows "\<exists>errors. k \<in> set errors \<and>
           handler env rq = \<lparr>calls = [], outcome = Inl (ValidationError errors)\<rparr>"
proof -
  let ?cls = StoreGetCustomersCustomerOrdersParams
  let ?inst = "plainToClass vc ?cls (query rq)"
  from assms(2) have decs: "decorators ?cls k = [IsOptional, IsEnumEach e]"
    by (auto simp: decorators_enum)
  from assms(2) have decl: "k \<in> set (declared ?cls)"
    by (auto simp: declared_Params)
  have "?inst k = Some v"
    using assms(3,4) by (simp add: plainToClass_def decs transform_def)
  then have "get ?inst k = v" by (simp add: get_def)
  with assms(4,5) have "offending vc (decorators ?cls k) (get ?inst k)"
    by (simp add: offending_def decs)
  with decl have mem: "k \<in> set (validate vc ?cls (query rq) ?inst)"
    by (rule offending_in_validate)
  then have "validator env (query rq) =
      Inl (ValidationError (validate vc ?cls (query rq) ?inst))"
    unfolding assms(1) by (rule validator_model_Inl)
  then have "handler env rq =
      \<lparr>calls = [], outcome = Inl (ValidationError (validate vc ?cls (query rq) ?inst))\<rparr>"
    by (rule handler_invalid)
  with mem show ?thesis by blast
qed

text \<open>A run with \<^verbatim>\<open>status[]=pending&status[]=bogus\<close>.\<close>

theorem enum_violation_halts_witness:
  "\<not> check (sample_vconf Forbid) (IsEnumEach OrderStatus) (Arr [Str ''pending'', Str ''bogus''])
   \<and> handler (sample_env Forbid)
       \<lparr>user_customer_id = Str ''cus_me'',
        query = [(''status'', Arr [Str ''pending'', Str ''bogus''])]\<rparr>
     = \<lparr>calls = [], outcome = Inl (ValidationError [''status''])\<rparr>"
proof -
  let ?v = "Arr [Str ''pending'', Str ''bogus'']"
  let ?rq = "\<lparr>user_customer_id = Str ''cus_me'', query = [(''status'', ?v)]\<rparr>"
  have a: "validator (sample_env Forbid) =
             validator_model (sample_vconf Forbid) StoreGetCustomersCustomerOrdersParams"
    by (simp add: sample_env_def)
  have b: "(''status'', OrderStatus) \<in> set [(''status'', OrderStatus),
             (''fulfillment_status'', FulfillmentStatus), (''payment_status'', PaymentStatus)]"
    by simp
  have c: "map_of (query ?rq) ''status'' = Some ?v" by simp
  have d: "\<not> nullish ?v" by (simp add: nullish_def)
  have e: "\<not> check (sample_vconf Forbid) (IsEnumEach OrderStatus) ?v"
    by (simp add: sample_vconf_def isEnum_def)
  obtain errors where "handler (sample_env Forbid) ?rq =
      \<lparr>calls = [], outcome = Inl (ValidationError errors)\<rparr>"
    using enum_violation_halts [OF a b c d e] by blast
  moreover have "outcome (handler (sample_env Forbid) ?rq) = Inl (ValidationError [''status''])"
    by (simp add: run_defs)
  ultimately show ?thesis using e by simp
qed

subsection \<open>C8: the response\<close>

text \<open>
  Claim C8. For every request that passes validation and whose call of \<^verbatim>\<open>listAndCount\<close>
  returns orders and a count, the object given to \<^verbatim>\<open>res.json\<close> is these orders, this count,
  and the validated \<^verbatim>\<open>offset\<close> and \<^verbatim>\<open>limit\<close>. With the validator of the spec, a \<^verbatim>\<open>limit\<close>
  that the query does not supply is the class's initial 10, and an \<^verbatim>\<open>offset\<close> that it does
  not supply is 0.
\<close>

theorem response_echoes_pagination:
  assumes "validator env (query rq) = Inr validated"
    and "calls (handler env rq) = [(f, c)]"
    and "listAndCount env f c = Inr (os, n)"
  shows "outcome (handler env rq) =
           Inr \<lparr>res_orders = os, res_count = n,
                res_offset = get validated ''offset'',
                res_limit = get validated ''limit''\<rparr> \<and>
         (validator env = validator_model vc StoreGetCustomersCustomerOrdersParams \<longrightarrow>
            (map_of (query rq) ''limit'' = None \<longrightarrow> get validated ''limit'' = Num (Fin 10)) \<and>
            (map_of (query rq) ''offset'' = None \<longrightarrow> get validated ''offset'' = Num (Fin 0)))"
proof -
  have a: "outcome (handler env rq) =
           Inr \<lparr>res_orders = os, res_count = n,
                res_offset = get validated ''offset'',
                res_limit = get validated ''limit''\<rparr>"
    using assms by (rule handler_response)
  have b: "(map_of (query rq) ''limit'' = None \<longrightarrow> get validated ''limit'' = Num (Fin 10)) \<and>
           (map_of (query rq) ''offset'' = None \<longrightarrow> get validated ''offset'' = Num (Fin 0))"
    if "validator env = validator_model vc StoreGetCustomersCustomerOrdersParams"
    using assms(1) unfolding that by (rule defaults_kept)
  from a b show ?thesis by blast
qed

text \<open>A run with \<^verbatim>\<open>offset=5\<close> and no \<^verbatim>\<open>limit\<close>: the response echoes 5 and the default 10.\<close>

theorem response_echoes_pagination_witness:
  "outcome (handler (sample_env Forbid)
       \<lparr>user_customer_id = Str ''cus_me'', query = [(''offset'', Str ''5'')]\<rparr>)
   = Inr \<lparr>res_orders = [1, 2, 3], res_count = 3,
          res_offset = Num (Fin 5), res_limit = Num (Fin 10)\<rparr>"
proof -
  let ?rq = "\<lparr>user_customer_id = Str ''cus_me'', query = [(''offset'', Str ''5'')]\<rparr>"
  let ?r = "handler (sample_env Forbid) ?rq"
  obtain validated where v: "validator (sample_env Forbid) (query ?rq) = Inr validated"
    and off: "get validated ''offset'' = Num (Fin 5)"
    by (simp add: run_defs)
  obtain f c where run: "calls ?r = [(f, c)]"
    by (simp add: run_defs)
  have svc: "listAndCount (sample_env Forbid) f c = Inr ([1, 2, 3], 3)"
    by (simp add: sample_env_def)
  have m: "validator (sample_env Forbid) =
             validator_model (sample_vconf Forbid) StoreGetCustomersCustomerOrdersParams"
    by (simp add: sample_env_def)
  have absent: "map_of (query ?rq) ''limit'' = None" by simp
  from response_echoes_pagination [OF v run svc, of "sample_vconf Forbid"] m absent
  have "outcome ?r = Inr \<lparr>res_orders = [1, 2, 3], res_count = 3,
          res_offset = get validated ''offset'', res_limit = get validated ''limit''\<rparr>"
    and "get validated ''limit'' = Num (Fin 10)"
    by simp_all
  with off show ?thesis by simp
qed

subsection \<open>C10: limit and offset are only numbers\<close>

text \<open>
  Claim C10. With the validator of the spec, \<^verbatim>\<open>limit\<close> and \<^verbatim>\<open>offset\<close> are checked by
  \<^verbatim>\<open>IsNumber\<close> alone: whatever finite numbers \<open>r\<close> and \<open>s\<close> the supplied values convert to
  (a fraction such as 2.5 and a negative number such as -3 included), neither property is
  offending; a query that supplies nothing else passes validation; and the handler
  forwards \<open>r\<close> and \<open>s\<close> unchanged as \<^verbatim>\<open>take\<close> and \<^verbatim>\<open>skip\<close> of every call and as \<^verbatim>\<open>limit\<close> and
  \<^verbatim>\<open>offset\<close> of the response.
\<close>

theorem pagination_numbers_unchecked:
  assumes "validator env = validator_model vc StoreGetCustomersCustomerOrdersParams"
    and "map_of (query rq) ''limit'' = Some lv" and "\<not> nullish lv"
    and "toNumber vc lv = Fin r"
    and "map_of (query rq) ''offset'' = Some ov" and "\<not> nullish ov"
    and "toNumber vc ov = Fin s"
  shows "\<not> offending vc [IsOptional, IsNumber, TypeOf NumberT] (Num (Fin r)) \<and>
         \<not> offending vc [IsOptional, IsNumber, TypeOf NumberT] (Num (Fin s)) \<and>
         (set (map fst (query rq)) \<subseteq> {''limit'', ''offset''} \<longrightarrow>
            (\<exists>validated. validator env (query rq) = Inr validated)) \<and>
         (\<forall>f c. (f, c) \<in> set (calls (handler env rq)) \<longrightarrow>
            lc_take c = Num (Fin r) \<and> lc_skip c = Num (Fin s)) \<and>
         (\<forall>resp. outcome (handler env rq) = Inr resp \<longrightarrow>
            res_limit resp = Num (Fin r) \<and> res_offset resp = Num (Fin s))"
proof -
  let ?cls = StoreGetCustomersCustomerOrdersParams
  let ?q = "query rq"
  let ?inst = "plainToClass vc ?cls ?q"
  have il: "?inst ''limit'' = Some (Num (Fin r))"
    using assms(2-4) decorators_pagination(1) by (rule number_not_offending(1))
  have io: "?inst ''offset'' = Some (Num (Fin s))"
    using assms(5-7) decorators_pagination(2) by (rule number_not_offending(1))
  have vals: "get validated ''limit'' = Num (Fin r) \<and> get validated ''offset'' = Num (Fin s)"
    if "validator env ?q = Inr validated" for validated
  proof -
    from that have m: "validator_model vc ?cls ?q = Inr validated" by (simp add: assms(1))
    have "validated ''limit'' = ?inst ''limit''"
      using m by (rule validator_model_Inr) (simp add: declared_Params)
    moreover have "validated ''offset'' = ?inst ''offset''"
      using m by (rule validator_model_Inr) (simp add: declared_Params)
    ultimately show ?thesis by (simp add: get_def il io)
  qed
  have a: "\<not> offending vc [IsOptional, IsNumber, TypeOf NumberT] (Num (Fin r))"
    by (simp add: offending_def)
  have b: "\<not> offending vc [IsOptional, IsNumber, TypeOf NumberT] (Num (Fin s))"
    by (simp add: offending_def)
  have c: "\<exists>validated. validator env ?q = Inr validated"
    if only: "set (map fst ?q) \<subseteq> {''limit'', ''offset''}"
  proof -
    have ok: "\<not> offending vc (decorators ?cls k) (get ?inst k)"
      if k: "k \<in> set (declared ?cls)" for k
    proof (cases "k = ''limit'' \<or> k = ''offset''")
      case True
      then show ?thesis
        using number_not_offending(2) [OF assms(2-4) decorators_pagination(1)]
          number_not_offending(2) [OF assms(5-7) decorators_pagination(2)] by auto
    next
      case False
      with only have "k \<notin> set (map fst ?q)" by auto
      then have "map_of ?q k = None" by (rule map_of_absent)
      moreover from False have "initial ?cls k = None" by (simp add: initial_Params_other)
      moreover from k have "IsOptional \<in> set (decorators ?cls k)" by (rule optional_Params)
      ultimately show ?thesis by (rule absent_not_offending)
    qed
    have known: "k \<in> set (declared ?cls)" if "k \<in> set (map fst ?q)" for k
      using that only by (auto simp: declared_Params)
    have "validate vc ?cls ?q ?inst = []"
      using ok known by (auto simp: validate_def filter_empty_conv)
    then show ?thesis
      by (simp add: assms(1) validator_model_def Let_def)
  qed
  have d: "\<forall>f c. (f, c) \<in> set (calls (handler env rq)) \<longrightarrow>
            lc_take c = Num (Fin r) \<and> lc_skip c = Num (Fin s)"
    using vals by (auto simp: handler_def Let_def get_def split: sum.splits prod.splits)
  have e: "\<forall>resp. outcome (handler env rq) = Inr resp \<longrightarrow>
            res_limit resp = Num (Fin r) \<and> res_offset resp = Num (Fin s)"
    using vals by (auto simp: handler_def Let_def get_def split: sum.splits prod.splits)
  from a b c d e show ?thesis by blast
qed

text \<open>A run with \<^verbatim>\<open>limit=2.5&offset=-3\<close>: validation passes, the call is made with
  \<^verbatim>\<open>take\<close> 2.5 and \<^verbatim>\<open>skip\<close> -3, and the response echoes both.\<close>

theorem pagination_numbers_unchecked_witness:
  "map lc_take (configs (handler (sample_env Forbid)
       \<lparr>user_customer_id = Str ''cus_me'',
        query = [(''limit'', Str ''2.5''), (''offset'', Str ''-3'')]\<rparr>))
     = [Num (Fin (5 / 2))] \<and>
   map lc_skip (configs (handler (sample_env Forbid)
       \<lparr>user_customer_id = Str ''cus_me'',
        query = [(''limit'', Str ''2.5''), (''offset'', Str ''-3'')]\<rparr>))
     = [Num (Fin (- 3))] \<and>
   outcome (handler (sample_env Forbid)
       \<lparr>user_customer_id = Str ''cus_me'',
        query = [(''limit'', Str ''2.5''), (''offset'', Str ''-3'')]\<rparr>)
     = Inr \<lparr>res_orders = [1, 2, 3], res_count = 3,
            res_offset = Num (Fin (- 3)), res_limit = Num (Fin (5 / 2))\<rparr>"
proof -
  let ?q = "[(''limit'', Str ''2.5''), (''offset'', Str ''-3'')]"
  let ?rq = "\<lparr>user_customer_id = Str ''cus_me'', query = ?q\<rparr>"
  let ?r = "handler (sample_env Forbid) ?rq"
  have m: "validator (sample_env Forbid) =
             validator_model (sample_vconf Forbid) StoreGetCustomersCustomerOrdersParams"
    by (simp add: sample_env_def)
  have l: "map_of (query ?rq) ''limit'' = Some (Str ''2.5'')" "\<not> nullish (Str ''2.5'')"
    "toNumber (sample_vconf Forbid) (Str ''2.5'') = Fin (5 / 2)"
    by (simp_all add: nullish_def sample_vconf_def sample_Number_def)
  have o: "map_of (query ?rq) ''offset'' = Some (Str ''-3'')" "\<not> nullish (Str ''-3'')"
    "toNumber (sample_vconf Forbid) (Str ''-3'') = Fin (- 3)"
    by (simp_all add: nullish_def sample_vconf_def sample_Number_def)
  note t = pagination_numbers_unchecked [OF m l o]
  have only: "set (map fst (query ?rq)) \<subseteq> {''limit'', ''offset''}" by simp
  with t obtain validated where v: "validator (sample_env Forbid) (query ?rq) = Inr validated"
    by blast
  obtain f c where run: "calls ?r = [(f, c)]"
    and out: "\<exists>resp. outcome ?r = Inr resp \<and> res_orders resp = [1, 2, 3] \<and> res_count resp = 3"
    by (simp add: run_defs)
  from run have mem: "(f, c) \<in> set (calls ?r)" by simp
  with t have c: "lc_take c = Num (Fin (5 / 2)) \<and> lc_skip c = Num (Fin (- 3))" by blast
  from out obtain resp where resp: "outcome ?r = Inr resp" "res_orders resp = [1, 2, 3]"
    "res_count resp = 3" by blast
  with t have "res_limit resp = Num (Fin (5 / 2)) \<and> res_offset resp = Num (Fin (- 3))"
    by blast
  with resp have "resp = \<lparr>res_orders = [1, 2, 3], res_count = 3,
            res_offset = Num (Fin (- 3)), res_limit = Num (Fin (5 / 2))\<rparr>"
    by (cases resp) simp
  with resp(1) run c show ?thesis by (simp add: configs_def)
qed

subsection \<open>C3: the spelling of the cancellation filter\<close>

text \<open>
  Claim C3 fails on the code. The documentation comment of the handler (line 41) names
  the parameter \<^verbatim>\<open>cancelled_at\<close>; the class declares \<^verbatim>\<open>canceled_at\<close> (line 200). So
  \<^verbatim>\<open>cancelled_at\<close> is not a declared property, and a request that supplies it, with any
  value \<open>v\<close>, is never checked or converted as a date comparison: the validator of the spec
  refuses the request, or drops the key, or forwards \<open>v\<close> as it came, according to how it
  treats undeclared keys.
\<close>

theorem cancelled_at_undeclared:
  "''cancelled_at'' \<notin> set (declared StoreGetCustomersCustomerOrdersParams) \<and>
   ''canceled_at'' \<in> set (declared StoreGetCustomersCustomerOrdersParams) \<and>
   validator_model (vc\<lparr>unknownKeys := Forbid\<rparr>) StoreGetCustomersCustomerOrdersParams
       [(''cancelled_at'', v)] = Inl (ValidationError [''cancelled_at'']) \<and>
   (\<exists>inst. validator_model (vc\<lparr>unknownKeys := Strip\<rparr>) StoreGetCustomersCustomerOrdersParams
       [(''cancelled_at'', v)] = Inr inst \<and> inst ''cancelled_at'' = None) \<and>
   (\<exists>inst. validator_model (vc\<lparr>unknownKeys := Keep\<rparr>) StoreGetCustomersCustomerOrdersParams
       [(''cancelled_at'', v)] = Inr inst \<and> inst ''cancelled_at'' = Some v)"
  by (simp add: validator_model_def validate_def plainToClass_def offending_def decorators_def
      initial_def declared_def class_defs transform_def nullish_def get_def Let_def)

end
